theory Spec2Isabelle
  imports Complex_Main "HOL-Library.Multiset"
begin

section \<open>Exceptions\<close>

text \<open>
  The exceptions that the handlers of \<^verbatim>\<open>fastapi_app/main.py\<close> can meet. Only
  \<open>CancelledError\<close> is outside Python's \<^verbatim>\<open>Exception\<close> class (it derives from
  \<^verbatim>\<open>BaseException\<close>), so an \<^verbatim>\<open>except Exception\<close> clause lets it through.
\<close>

datatype error =
    AttributeError
  | ValueError
  | TypeError
  | JSONDecodeError
  | UnicodeDecodeError
  | DataError
  | InterfaceError
  | PostgresError
  | KafkaError
  | WebSocketDisconnect
  | RuntimeError
  | CancelledError

fun is_Exception :: "error \<Rightarrow> bool" where
  "is_Exception CancelledError = False"
| "is_Exception _ = True"

section \<open>The observer registry: class ConnectionManager\<close>

text \<open>
  \<^verbatim>\<open>self.active: List[WebSocket]\<close> is a Python list, so order and repetitions are part
  of the state. A connection is compared by identity (\<^verbatim>\<open>in\<close> and \<^verbatim>\<open>list.remove\<close> use
  \<^verbatim>\<open>==\<close>, which for a WebSocket is object identity); \<open>'c\<close> is the type of these
  identities.
\<close>

record 'c ConnectionManager =
  active :: "'c list"

definition init :: "'c ConnectionManager" where
  "init = \<lparr>active = []\<rparr>"

text \<open>
  \<^verbatim>\<open>connect\<close>: the handshake \<^verbatim>\<open>await websocket.accept()\<close> either returns or raises
  (its outcome is the argument \<open>accept\<close>); after it the connection is appended.
\<close>

definition connect ::
  "error option \<Rightarrow> 'c \<Rightarrow> 'c ConnectionManager \<Rightarrow> error + 'c ConnectionManager" where
  "connect accept websocket self =
     (case accept of
        Some e \<Rightarrow> Inl e
      | None \<Rightarrow> Inr (self\<lparr>active := active self @ [websocket]\<rparr>))"

text \<open>Python's \<^verbatim>\<open>list.remove(x)\<close>: drops the first element equal to \<open>x\<close>, raises
  ValueError when there is none.\<close>

fun list_remove :: "'a \<Rightarrow> 'a list \<Rightarrow> error + 'a list" where
  "list_remove x [] = Inl ValueError"
| "list_remove x (y # ys) =
     (if y = x then Inr ys
      else (case list_remove x ys of
              Inl e \<Rightarrow> Inl e
            | Inr zs \<Rightarrow> Inr (y # zs)))"

definition disconnect ::
  "'c \<Rightarrow> 'c ConnectionManager \<Rightarrow> error + 'c ConnectionManager" where
  "disconnect websocket self =
     (if websocket \<in> set (active self)
      then (case list_remove websocket (active self) of
              Inl e \<Rightarrow> Inl e
            | Inr xs \<Rightarrow> Inr (self\<lparr>active := xs\<rparr>))
      else Inr self)"

text \<open>
  What a broadcast does that an observer of the registry can see, in the order it
  happens: a send that returned, a send that raised, a removal from the registry.
\<close>

datatype ('c, 'm) effect =
    Sent 'c 'm
  | SendRaised 'c 'm error
  | Unregistered 'c

text \<open>
  The first loop of \<^verbatim>\<open>broadcast\<close>. \<open>send_text c m\<close> is the outcome of
  \<^verbatim>\<open>await connection.send_text(message)\<close> during this pass: \<open>None\<close> when it returns,
  \<open>Some e\<close> when it raises \<open>e\<close>. \<^verbatim>\<open>except Exception\<close> catches \<open>e\<close> when
  \<open>is_Exception e\<close>; anything else leaves the function at once. The pass is taken
  without other handlers changing \<^verbatim>\<open>self.active\<close> under it.
\<close>

fun send_pass ::
  "('c \<Rightarrow> 'm \<Rightarrow> error option) \<Rightarrow> 'm \<Rightarrow> 'c list \<Rightarrow> 'c list \<Rightarrow> ('c, 'm) effect list
     \<Rightarrow> (error + 'c list) \<times> ('c, 'm) effect list" where
  "send_pass send_text message [] to_remove tr = (Inr to_remove, tr)"
| "send_pass send_text message (connection # rest) to_remove tr =
     (case send_text connection message of
        None \<Rightarrow> send_pass send_text message rest to_remove (tr @ [Sent connection message])
      | Some e \<Rightarrow>
          if is_Exception e
          then send_pass send_text message rest (to_remove @ [connection])
                 (tr @ [SendRaised connection message e])
          else (Inl e, tr @ [SendRaised connection message e]))"

text \<open>The second loop: \<^verbatim>\<open>for c in to_remove: self.disconnect(c)\<close>.\<close>

fun remove_pass ::
  "'c list \<Rightarrow> 'c ConnectionManager \<Rightarrow> ('c, 'm) effect list
     \<Rightarrow> error option \<times> 'c ConnectionManager \<times> ('c, 'm) effect list" where
  "remove_pass [] self tr = (None, self, tr)"
| "remove_pass (c # cs) self tr =
     (case disconnect c self of
        Inl e \<Rightarrow> (Some e, self, tr)
      | Inr self' \<Rightarrow> remove_pass cs self' (tr @ [Unregistered c]))"

text \<open>
  \<^verbatim>\<open>broadcast\<close> returns the exception that left it (\<open>None\<close> for a normal return), the
  registry as it is afterwards, and the effects in order.
\<close>

definition broadcast ::
  "('c \<Rightarrow> 'm \<Rightarrow> error option) \<Rightarrow> 'm \<Rightarrow> 'c ConnectionManager
     \<Rightarrow> error option \<times> 'c ConnectionManager \<times> ('c, 'm) effect list" where
  "broadcast send_text message self =
     (case send_pass send_text message (active self) [] [] of
        (Inl e, tr) \<Rightarrow> (Some e, self, tr)
      | (Inr to_remove, tr) \<Rightarrow> remove_pass to_remove self tr)"




section \<open>Deserialized payloads\<close>

text \<open>
  What \<^verbatim>\<open>json.loads\<close> returns: Python's \<^verbatim>\<open>None\<close>, \<^verbatim>\<open>bool\<close>, \<^verbatim>\<open>int\<close>, \<^verbatim>\<open>float\<close>,
  \<^verbatim>\<open>str\<close>, \<^verbatim>\<open>list\<close> and \<^verbatim>\<open>dict\<close>. A dict keeps its keys in insertion order, so it
  is an association list (whose keys are distinct for a value that \<^verbatim>\<open>json.loads\<close>
  built). A float is carried as the number it denotes.
\<close>

datatype json =
    JNull
  | JBool bool
  | JInt int
  | JFloat real
  | JString string
  | JArray "json list"
  | JObject "(string \<times> json) list"

text \<open>\<^verbatim>\<open>d.get(k)\<close> on a dict: the value, or \<^verbatim>\<open>None\<close> when the key is missing.\<close>

definition dict_get :: "(string \<times> json) list \<Rightarrow> string \<Rightarrow> json" where
  "dict_get d k = (case map_of d k of None \<Rightarrow> JNull | Some v \<Rightarrow> v)"

text \<open>\<^verbatim>\<open>data.get(k)\<close> on any deserialized value: only a dict has the method.\<close>

fun get :: "json \<Rightarrow> string \<Rightarrow> error + json" where
  "get (JObject d) k = Inr (dict_get d k)"
| "get _ k = Inl AttributeError"

text \<open>\<^verbatim>\<open>d[k] = v\<close>: an existing key keeps its place, a new key goes last.\<close>

fun dict_set :: "string \<Rightarrow> json \<Rightarrow> (string \<times> json) list \<Rightarrow> (string \<times> json) list" where
  "dict_set k v [] = [(k, v)]"
| "dict_set k v ((k', v') # d) =
     (if k' = k then (k, v) # d else (k', v') # dict_set k v d)"

text \<open>The dict display \<^verbatim>\<open>{"type": "ALERT", **data}\<close>: the literal entry first, then the
  items of \<open>data\<close> stored one after the other; a non-mapping cannot be unpacked.\<close>

definition alert_dict :: "(string \<times> json) list \<Rightarrow> (string \<times> json) list" where
  "alert_dict d = fold (\<lambda>(k, v). dict_set k v) d [(''type'', JString ''ALERT'')]"

fun alert_payload :: "json \<Rightarrow> error + json" where
  "alert_payload (JObject d) = Inr (JObject (alert_dict d))"
| "alert_payload _ = Inl TypeError"

section \<open>The store: table activity behind an asyncpg pool\<close>

text \<open>A row of \<^verbatim>\<open>activity\<close>. The first three columns hold the values the consumer
  passed; \<open>ts\<close> is a timestamp, \<open>None\<close> for SQL NULL.\<close>

record row =
  student_id :: json
  status :: json
  confidence :: json
  ts :: "real option"

record pool =
  min_size :: nat
  max_size :: nat
  closed :: bool

text \<open>\<^verbatim>\<open>asyncpg.create_pool(PG_DSN, min_size=.., max_size=..)\<close>; \<open>reply\<close> is what the
  server answers to the first connections.\<close>

definition create_pool :: "error option \<Rightarrow> nat \<Rightarrow> nat \<Rightarrow> error + pool" where
  "create_pool reply lo hi =
     (case reply of
        Some e \<Rightarrow> Inl e
      | None \<Rightarrow> Inr \<lparr>min_size = lo, max_size = hi, closed = False\<rparr>)"

text \<open>
  \<^verbatim>\<open>app.state.db.acquire()\<close>: the attribute \<^verbatim>\<open>db\<close> exists only once \<^verbatim>\<open>startup\<close> has
  set it; a closed pool refuses; otherwise the environment decides (\<open>reply\<close>).
\<close>

definition acquire :: "pool option \<Rightarrow> error option \<Rightarrow> error + pool" where
  "acquire db reply =
     (case db of
        None \<Rightarrow> Inl AttributeError
      | Some p \<Rightarrow>
          if closed p then Inl InterfaceError
          else (case reply of Some e \<Rightarrow> Inl e | None \<Rightarrow> Inr p))"

text \<open>
  The fourth argument of the INSERT goes through \<^verbatim>\<open>to_timestamp($4)\<close>, which takes a
  double precision number of epoch seconds: \<^verbatim>\<open>None\<close> is NULL and gives NULL, a Python
  number is converted (\<^verbatim>\<open>True\<close> and \<^verbatim>\<open>False\<close> are the integers 1 and 0), any other
  value is refused when the argument is encoded.
\<close>

fun to_timestamp :: "json \<Rightarrow> error + real option" where
  "to_timestamp JNull = Inr None"
| "to_timestamp (JInt n) = Inr (Some (of_int n))"
| "to_timestamp (JFloat x) = Inr (Some x)"
| "to_timestamp (JBool b) = Inr (Some (if b then 1 else 0))"
| "to_timestamp _ = Inl DataError"

text \<open>
  \<^verbatim>\<open>conn.execute("INSERT INTO activity (student_id, status, confidence, ts) VALUES
  ($1,$2,$3, to_timestamp($4))", a, b, c, t)\<close>. \<open>reply\<close> is the store's own answer
  (unavailable, a constraint or a column type it refuses); when it accepts, the row is
  appended to the table.
\<close>

definition execute_insert ::
  "error option \<Rightarrow> json \<times> json \<times> json \<times> json \<Rightarrow> row list \<Rightarrow> error + row \<times> row list" where
  "execute_insert reply args table =
     (case args of (a, b, c, t) \<Rightarrow>
        (case reply of
           Some e \<Rightarrow> Inl e
         | None \<Rightarrow>
             (case to_timestamp t of
                Inl e \<Rightarrow> Inl e
              | Inr stamp \<Rightarrow>
                  let r = \<lparr>student_id = a, status = b, confidence = c, ts = stamp\<rparr>
                  in Inr (r, table @ [r]))))"

text \<open>
  \<^verbatim>\<open>ORDER BY ts DESC\<close>: PostgreSQL sorts NULL as larger than every value, so with DESC
  the NULLs come first. \<open>ts_before a b\<close>: a row with timestamp \<open>a\<close> may stand before one
  with timestamp \<open>b\<close>. Rows with equal timestamps come out in the order the table is
  scanned, which the list order of the table stands for.
\<close>

fun ts_before :: "real option \<Rightarrow> real option \<Rightarrow> bool" where
  "ts_before None b = True"
| "ts_before (Some x) None = False"
| "ts_before (Some x) (Some y) = (y \<le> x)"

fun insert_desc :: "row \<Rightarrow> row list \<Rightarrow> row list" where
  "insert_desc r [] = [r]"
| "insert_desc r (q # qs) =
     (if ts_before (ts r) (ts q) then r # q # qs else q # insert_desc r qs)"

definition order_by_ts_desc :: "row list \<Rightarrow> row list" where
  "order_by_ts_desc table = foldr insert_desc table []"

text \<open>\<^verbatim>\<open>SELECT student_id, status, confidence, ts FROM activity ORDER BY ts DESC LIMIT 20\<close>\<close>

definition select_recent :: "row list \<Rightarrow> row list" where
  "select_recent table = take 20 (order_by_ts_desc table)"

section \<open>The application\<close>

text \<open>An \<^verbatim>\<open>asyncio.Task\<close>: created and not yet finished, asked to cancel, or finished.\<close>

datatype task = Scheduled | Cancelling | Finished

text \<open>What the handlers do to the outside, in order; an effect of the consumer
  carries the position of its message in the stream.\<close>

datatype 'c event =
    PoolCreated nat nat
  | TaskCreated
  | TaskCancel
  | PoolClosed
  | ConsumerStarted
  | ConsumerStopped
  | Inserted nat row
  | Registry nat "('c, json) effect"

text \<open>
  The state the handlers share: the attributes \<^verbatim>\<open>db\<close> and \<^verbatim>\<open>kafka_task\<close> of
  \<^verbatim>\<open>app.state\<close> (\<open>None\<close> while unset), the global \<^verbatim>\<open>manager\<close>, the table in the
  store, and the log of effects.
\<close>

record 'c world =
  db :: "pool option"
  kafka_task :: "task option"
  manager :: "'c ConnectionManager"
  activity :: "row list"
  log :: "'c event list"

text \<open>\<^verbatim>\<open>startup\<close>: the pool first, then the consumer task.\<close>

definition startup :: "error option \<Rightarrow> 'c world \<Rightarrow> error option \<times> 'c world" where
  "startup create_reply w =
     (case create_pool create_reply 1 5 of
        Inl e \<Rightarrow> (Some e, w)
      | Inr p \<Rightarrow>
          let w1 = w\<lparr>db := Some p, log := log w @ [PoolCreated (min_size p) (max_size p)]\<rparr>;
              w2 = w1\<lparr>kafka_task := Some Scheduled, log := log w1 @ [TaskCreated]\<rparr>
          in (None, w2))"

text \<open>\<^verbatim>\<open>Task.cancel()\<close> only asks: a task that is not finished is marked, and the
  CancelledError reaches the coroutine when the event loop next runs it.\<close>

fun cancel :: "task \<Rightarrow> task" where
  "cancel Finished = Finished"
| "cancel _ = Cancelling"

text \<open>\<^verbatim>\<open>shutdown\<close>: \<^verbatim>\<open>app.state.kafka_task.cancel()\<close>, then
  \<^verbatim>\<open>await app.state.db.close()\<close> (\<open>close_reply\<close> is its outcome).\<close>

definition shutdown :: "error option \<Rightarrow> 'c world \<Rightarrow> error option \<times> 'c world" where
  "shutdown close_reply w =
     (case kafka_task w of
        None \<Rightarrow> (Some AttributeError, w)
      | Some t \<Rightarrow>
          let w1 = w\<lparr>kafka_task := Some (cancel t), log := log w @ [TaskCancel]\<rparr>
          in (case db w1 of
                None \<Rightarrow> (Some AttributeError, w1)
              | Some p \<Rightarrow>
                  (case close_reply of
                     Some e \<Rightarrow> (Some e, w1)
                   | None \<Rightarrow>
                       (None, w1\<lparr>db := Some (p\<lparr>closed := True\<rparr>),
                                 log := log w1 @ [PoolClosed]\<rparr>))))"

text \<open>\<^verbatim>\<open>recent\<close>: a connection from the pool, the query, the rows as dicts (a dict per
  row, field by field: the rows themselves here).\<close>

definition recent :: "error option \<Rightarrow> error option \<Rightarrow> 'c world \<Rightarrow> error + row list" where
  "recent acquire_reply fetch_reply w =
     (case acquire (db w) acquire_reply of
        Inl e \<Rightarrow> Inl e
      | Inr conn \<Rightarrow>
          (case fetch_reply of
             Some e \<Rightarrow> Inl e
           | None \<Rightarrow> Inr (select_recent (activity w))))"

section \<open>The stream consumer\<close>

text \<open>
  What the broker, the store and the observers answer while the consumer runs; the
  number is the position in the stream of the message being processed.
\<close>

record 'c env =
  start_reply :: "error option"
  stop_reply :: "error option"
  acquire_reply :: "nat \<Rightarrow> error option"
  execute_reply :: "nat \<Rightarrow> error option"
  release_reply :: "nat \<Rightarrow> error option"
  send_reply :: "nat \<Rightarrow> 'c \<Rightarrow> json \<Rightarrow> error option"

text \<open>The four arguments of the INSERT, evaluated left to right.\<close>

definition insert_args :: "json \<Rightarrow> error + json \<times> json \<times> json \<times> json" where
  "insert_args data =
     (case get data ''student_id'' of Inl e \<Rightarrow> Inl e | Inr a \<Rightarrow>
      (case get data ''status'' of Inl e \<Rightarrow> Inl e | Inr b \<Rightarrow>
       (case get data ''confidence'' of Inl e \<Rightarrow> Inl e | Inr c \<Rightarrow>
        (case get data ''timestamp'' of Inl e \<Rightarrow> Inl e | Inr t \<Rightarrow>
           Inr (a, b, c, t)))))"

text \<open>
  The \<^verbatim>\<open>async with app.state.db.acquire() as conn: await conn.execute(...)\<close> block of
  the loop body. The connection is released when the block is left, by a return or by
  an exception, and an exception of the release takes the place of the block's own.
\<close>

definition persist :: "'c env \<Rightarrow> nat \<Rightarrow> json \<Rightarrow> 'c world \<Rightarrow> error option \<times> 'c world" where
  "persist env n data w =
     (case acquire (db w) (acquire_reply env n) of
        Inl e \<Rightarrow> (Some e, w)
      | Inr conn \<Rightarrow>
          let (r, w1) =
                (case insert_args data of
                   Inl e \<Rightarrow> (Some e, w)
                 | Inr args \<Rightarrow>
                     (case execute_insert (execute_reply env n) args (activity w) of
                        Inl e \<Rightarrow> (Some e, w)
                      | Inr (new_row, table) \<Rightarrow>
                          (None, w\<lparr>activity := table,
                                   log := log w @ [Inserted n new_row]\<rparr>)))
          in (case release_reply env n of
                Some e \<Rightarrow> (Some e, w1)
              | None \<Rightarrow> (r, w1)))"

text \<open>One turn of the loop body for the message value \<open>data\<close>: persist, then
  \<^verbatim>\<open>await manager.broadcast(json.dumps({"type":"ALERT", **data}))\<close>. The message handed
  to \<^verbatim>\<open>broadcast\<close> is the text of the payload; the payload stands for it here.\<close>

definition body :: "'c env \<Rightarrow> nat \<Rightarrow> json \<Rightarrow> 'c world \<Rightarrow> error option \<times> 'c world" where
  "body env n data w =
     (case persist env n data w of
        (Some e, w1) \<Rightarrow> (Some e, w1)
      | (None, w1) \<Rightarrow>
          (case alert_payload data of
             Inl e \<Rightarrow> (Some e, w1)
           | Inr message \<Rightarrow>
               (case broadcast (send_reply env n) message (manager w1) of
                  (r, m, tr) \<Rightarrow>
                    (r, w1\<lparr>manager := m, log := log w1 @ map (Registry n) tr\<rparr>))))"

text \<open>
  \<^verbatim>\<open>async for msg in consumer\<close> over the part of the stream delivered so far. A step of
  the iteration either yields a message whose \<^verbatim>\<open>value\<close> is what \<^verbatim>\<open>value_deserializer\<close>
  returned (\<open>Inr\<close>), or raises (\<open>Inl\<close>): the client applies the deserializer
  \<^verbatim>\<open>json.loads(m.decode('utf-8'))\<close> while it builds the message, so a payload that
  does not decode or parse makes the step raise. Nothing in the loop catches an
  exception. The result \<open>None\<close> means the loop waits for the next message.
\<close>

fun consume ::
  "'c env \<Rightarrow> nat \<Rightarrow> (error + json) list \<Rightarrow> 'c world \<Rightarrow> error option \<times> 'c world" where
  "consume env n [] w = (None, w)"
| "consume env n (Inl e # rest) w = (Some e, w)"
| "consume env n (Inr data # rest) w =
     (case body env n data w of
        (Some e, w1) \<Rightarrow> (Some e, w1)
      | (None, w1) \<Rightarrow> consume env (Suc n) rest w1)"

text \<open>\<^verbatim>\<open>kafka_consumer_task\<close>: start the consumer, run the loop, and when an exception
  leaves the loop stop the consumer on the way out (\<^verbatim>\<open>finally\<close>).\<close>

definition kafka_consumer_task ::
  "'c env \<Rightarrow> (error + json) list \<Rightarrow> 'c world \<Rightarrow> error option \<times> 'c world" where
  "kafka_consumer_task env stream w =
     (case start_reply env of
        Some e \<Rightarrow> (Some e, w)
      | None \<Rightarrow>
          (case consume env 0 stream (w\<lparr>log := log w @ [ConsumerStarted]\<rparr>) of
             (None, w1) \<Rightarrow> (None, w1)
           | (Some e, w1) \<Rightarrow>
               (case stop_reply env of
                  Some e' \<Rightarrow> (Some e', w1)
                | None \<Rightarrow> (Some e, w1\<lparr>log := log w1 @ [ConsumerStopped]\<rparr>))))"

section \<open>Reading the log\<close>

text \<open>
  \<open>write_first written es\<close>: in \<open>es\<close>, every registry effect of message \<open>n\<close> (a send, a
  failed send, a removal during its broadcast) comes after the completed insert of
  message \<open>n\<close>; \<open>written\<close> lists the messages whose insert completed earlier.
\<close>

fun write_first :: "nat list \<Rightarrow> 'c event list \<Rightarrow> bool" where
  "write_first written [] = True"
| "write_first written (Inserted n r # es) = write_first (n # written) es"
| "write_first written (Registry n x # es) = (n \<in> set written \<and> write_first written es)"
| "write_first written (_ # es) = write_first written es"

text \<open>The messages that a log shows as handed to \<^verbatim>\<open>send_text\<close>.\<close>

fun sent_messages :: "'c event list \<Rightarrow> json list" where
  "sent_messages [] = []"
| "sent_messages (Registry n (Sent c m) # es) = m # sent_messages es"
| "sent_messages (Registry n (SendRaised c m e) # es) = m # sent_messages es"
| "sent_messages (_ # es) = sent_messages es"


section \<open>Sample inputs\<close>

text \<open>An environment in which nothing fails.\<close>

definition quiet :: "nat env" where
  "quiet = \<lparr>start_reply = None, stop_reply = None,
            acquire_reply = (\<lambda>n. None), execute_reply = (\<lambda>n. None),
            release_reply = (\<lambda>n. None), send_reply = (\<lambda>n c m. None)\<rparr>"


text \<open>The process before \<^verbatim>\<open>startup\<close>, with two observers registered, and after it.\<close>

definition fresh :: "nat world" where
  "fresh = \<lparr>db = None, kafka_task = None, manager = \<lparr>active = [1, 2]\<rparr>,
            activity = [], log = []\<rparr>"

definition ready :: "nat world" where
  "ready = snd (startup None fresh)"

definition event_S1 :: json where
  "event_S1 = JObject [(''student_id'', JString ''S1''), (''status'', JString ''distracted''),
                       (''confidence'', JFloat 0.82), (''timestamp'', JInt 1700000000)]"

definition event_S2 :: json where
  "event_S2 = JObject [(''student_id'', JString ''S2''), (''status'', JString ''attentive''),
                       (''confidence'', JFloat 0.9), (''timestamp'', JInt 1700000060)]"

definition row_S1 :: row where
  "row_S1 = \<lparr>student_id = JString ''S1'', status = JString ''distracted'',
             confidence = JFloat 0.82, ts = Some 1700000000\<rparr>"

definition row_S2 :: row where
  "row_S2 = \<lparr>student_id = JString ''S2'', status = JString ''attentive'',
             confidence = JFloat 0.9, ts = Some 1700000060\<rparr>"

definition alert_S1 :: json where
  "alert_S1 = JObject [(''type'', JString ''ALERT''), (''student_id'', JString ''S1''),
                       (''status'', JString ''distracted''), (''confidence'', JFloat 0.82),
                       (''timestamp'', JInt 1700000000)]"

definition alert_S2 :: json where
  "alert_S2 = JObject [(''type'', JString ''ALERT''), (''student_id'', JString ''S2''),
                       (''status'', JString ''attentive''), (''confidence'', JFloat 0.9),
                       (''timestamp'', JInt 1700000060)]"

definition pool_1_5 :: pool where
  "pool_1_5 = \<lparr>min_size = 1, max_size = 5, closed = False\<rparr>"

text \<open>An event that brings its own \<^verbatim>\<open>type\<close> field.\<close>

definition event_typed :: "(string \<times> json) list" where
  "event_typed = [(''student_id'', JString ''S3''), (''type'', JString ''INFO'')]"

text \<open>An event of student S1 at epoch second \<open>i\<close>, and the row it is stored as.\<close>

definition tick :: "int \<Rightarrow> json" where
  "tick i = JObject [(''student_id'', JString ''S1''), (''status'', JString ''attentive''),
                     (''confidence'', JFloat 0.5), (''timestamp'', JInt i)]"

definition tick_row :: "int \<Rightarrow> row" where
  "tick_row i = \<lparr>student_id = JString ''S1'', status = JString ''attentive'',
                 confidence = JFloat 0.5, ts = Some (of_int i)\<rparr>"

text \<open>The process after the consumer has taken 25 events, one per second, with no
  observer connected.\<close>

definition after_25 :: "nat world" where
  "after_25 = snd (kafka_consumer_task quiet
                     (map (\<lambda>i. Inr (tick i)) [1700000001..1700000025])
                     (ready\<lparr>manager := \<lparr>active = []\<rparr>\<rparr>))"

lemmas model_defs =
  quiet_def fresh_def ready_def event_S1_def event_S2_def row_S1_def row_S2_def alert_S1_def
  alert_S2_def pool_1_5_def startup_def shutdown_def create_pool_def kafka_consumer_task_def
  body_def persist_def acquire_def insert_args_def execute_insert_def dict_get_def alert_dict_def
  broadcast_def disconnect_def connect_def recent_def Let_def

section \<open>Properties of the registry\<close>

lemma ready_eq:
  "ready = \<lparr>db = Some pool_1_5, kafka_task = Some Scheduled, manager = \<lparr>active = [1, 2]\<rparr>,
            activity = [], log = [PoolCreated 1 5, TaskCreated]\<rparr>"
  by (simp add: model_defs)

lemma list_remove_remove1:
  "x \<in> set xs \<Longrightarrow> list_remove x xs = Inr (remove1 x xs)"
  by (induction xs) auto

lemma disconnect_remove1:
  "disconnect c self = Inr (self\<lparr>active := remove1 c (active self)\<rparr>)"
  by (simp add: disconnect_def list_remove_remove1 remove1_idem)








subsection \<open>Broadcast\<close>


lemma remove_pass_fold:
  "remove_pass cs self tr =
     (None, self\<lparr>active := fold remove1 cs (active self)\<rparr>, tr @ map Unregistered cs)"
  by (induction cs arbitrary: self tr) (simp_all add: disconnect_remove1)














section \<open>Properties of the stream consumer\<close>

lemma consume_append_raise:
  "consume env n (pre @ Inl e # post) w =
     (case consume env n pre w of
        (None, w1) \<Rightarrow> (Some e, w1)
      | (Some e1, w1) \<Rightarrow> (Some e1, w1))"
proof (induction pre arbitrary: n w)
  case Nil
  then show ?case by simp
next
  case (Cons x pre)
  show ?case
  proof (cases x)
    case (Inl a)
    then show ?thesis by simp
  next
    case (Inr data)
    then show ?thesis
      by (simp add: Cons.IH split: prod.splits option.splits)
  qed
qed

text \<open>
  C1, as the spec has it: a message whose payload does not deserialize is skipped, and a
  malformed message between two valid ones keeps neither from being persisted and
  broadcast. With nothing else failing and two observers connected, the stream S1,
  malformed, S2 ends the task with the decoding error: S1 is stored and sent to both
  observers, S2 is neither stored nor sent.
\<close>

theorem malformed_not_skipped_counterexample:
  "kafka_consumer_task quiet [Inr event_S1, Inl JSONDecodeError, Inr event_S2] ready =
     (Some JSONDecodeError,
      \<lparr>db = Some pool_1_5,
       kafka_task = Some Scheduled,
       manager = \<lparr>active = [1, 2]\<rparr>,
       activity = [row_S1],
       log = [PoolCreated 1 5, TaskCreated, ConsumerStarted,
              Inserted 0 row_S1,
              Registry 0 (Sent 1 alert_S1),
              Registry 0 (Sent 2 alert_S1),
              ConsumerStopped]\<rparr>)"
  by (simp add: model_defs)

text \<open>
  C1, amended: a message whose payload does not deserialize is not skipped. The
  iteration step raises, nothing catches it, and the loop ends: the messages before it
  are processed as if the stream ended there, the task ends with an error, and what the
  broker delivers after it changes nothing.
\<close>

theorem malformed_message_ends_loop:
  "consume env n (pre @ Inl e # post) w =
     (case consume env n pre w of
        (None, w1) \<Rightarrow> (Some e, w1)
      | (Some e1, w1) \<Rightarrow> (Some e1, w1))
   \<and> kafka_consumer_task env (pre @ Inl e # post) w = kafka_consumer_task env (pre @ [Inl e]) w
   \<and> fst (kafka_consumer_task env (pre @ Inl e # post) w) \<noteq> None"
proof -
  have a: "consume env n (pre @ Inl e # post) w = consume env n (pre @ [Inl e]) w" for n w
    by (simp add: consume_append_raise)
  have b: "fst (consume env n (pre @ Inl e # post) w) \<noteq> None" for n w
    by (simp add: consume_append_raise split: prod.splits option.splits)
  have c: "fst (kafka_consumer_task env (pre @ Inl e # post) w) \<noteq> None"
    using b[of 0 "w\<lparr>log := log w @ [ConsumerStarted]\<rparr>"]
    by (auto simp: kafka_consumer_task_def split: option.splits prod.splits)
  have d: "kafka_consumer_task env (pre @ Inl e # post) w
             = kafka_consumer_task env (pre @ [Inl e]) w"
    unfolding kafka_consumer_task_def a ..
  show ?thesis
    using c d consume_append_raise[of env n pre e post w] by blast
qed

subsection \<open>The write comes before the broadcast\<close>

lemma write_first_mono:
  "write_first ws es \<Longrightarrow> set ws \<subseteq> set ws' \<Longrightarrow> write_first ws' es"
proof (induction ws es arbitrary: ws' rule: write_first.induct)
  case (2 written n r es)
  then show ?case by (simp add: subset_insertI2)
qed auto

lemma write_first_append:
  "write_first ws es \<Longrightarrow> write_first ws fs \<Longrightarrow> write_first ws (es @ fs)"
proof (induction ws es rule: write_first.induct)
  case (2 written n r es)
  then show ?case using write_first_mono[of written fs "n # written"] by auto
qed auto

lemma write_first_registry:
  "n \<in> set ws \<Longrightarrow> write_first ws (map (Registry n) tr)"
  by (induction tr) auto

lemma persist_log:
  "persist env n data w = (r, w1) \<Longrightarrow>
     (r \<noteq> None \<and> log w1 = log w) \<or> (\<exists>new_row. log w1 = log w @ [Inserted n new_row])"
  by (cases "release_reply env n")
     (fastforce simp: persist_def Let_def split: sum.splits option.splits prod.splits)+

lemma body_log:
  assumes "body env n data w = (r, w1)"
  shows "\<exists>evs. log w1 = log w @ evs \<and> write_first [] evs"
proof (cases "persist env n data w")
  case (Pair r0 w0)
  from persist_log[OF Pair] show ?thesis
  proof
    assume "r0 \<noteq> None \<and> log w0 = log w"
    with Pair assms show ?thesis by (auto simp: body_def)
  next
    assume "\<exists>new_row. log w0 = log w @ [Inserted n new_row]"
    then obtain new_row where l: "log w0 = log w @ [Inserted n new_row]" by blast
    show ?thesis
    proof (cases r0)
      case (Some e)
      with Pair assms l show ?thesis by (auto simp: body_def)
    next
      case None
      show ?thesis
      proof (cases "alert_payload data")
        case (Inl e)
        with None Pair assms l show ?thesis by (auto simp: body_def)
      next
        case (Inr message)
        obtain rb m tr where b: "broadcast (send_reply env n) message (manager w0) = (rb, m, tr)"
          by (cases "broadcast (send_reply env n) message (manager w0)") auto
        have "log w1 = log w @ (Inserted n new_row # map (Registry n) tr)"
          using None Pair assms l Inr b by (auto simp: body_def)
        moreover have "write_first [] (Inserted n new_row # map (Registry n) tr)"
          by (simp add: write_first_registry)
        ultimately show ?thesis by blast
      qed
    qed
  qed
qed

lemma consume_log:
  "consume env n stream w = (r, w1) \<Longrightarrow> \<exists>evs. log w1 = log w @ evs \<and> write_first [] evs"
proof (induction env n stream w arbitrary: r w1 rule: consume.induct)
  case (1 env n w)
  then show ?case by simp
next
  case (2 env n e rest w)
  then show ?case by simp
next
  case (3 env n data rest w)
  obtain rb wb where b: "body env n data w = (rb, wb)" by (cases "body env n data w") auto
  from body_log[OF b] obtain evs where e: "log wb = log w @ evs" "write_first [] evs" by blast
  show ?case
  proof (cases rb)
    case (Some err)
    with 3 b e show ?thesis by auto
  next
    case None
    with 3(2) b have c: "consume env (Suc n) rest wb = (r, w1)" by simp
    from 3(1)[OF b[symmetric] _ c] None obtain fs
      where f: "log w1 = log wb @ fs" "write_first [] fs"
      by auto
    have "log w1 = log w @ (evs @ fs)" using e f by simp
    moreover have "write_first [] (evs @ fs)" using e f by (simp add: write_first_append)
    ultimately show ?thesis by blast
  qed
qed

text \<open>
  C3: in what a run of the consumer task adds to the log, every effect of the broadcast
  of a message comes after the completed insert of that same message; a message whose
  insert did not complete is never broadcast.
\<close>

theorem write_precedes_broadcast:
  assumes "kafka_consumer_task env stream w = (r, w1)"
  shows "\<exists>evs. log w1 = log w @ evs \<and> write_first [] evs"
proof (cases "start_reply env")
  case (Some e)
  with assms show ?thesis by (auto simp: kafka_consumer_task_def)
next
  case None
  let ?w0 = "w\<lparr>log := log w @ [ConsumerStarted]\<rparr>"
  obtain rc wc where c: "consume env 0 stream ?w0 = (rc, wc)"
    by (cases "consume env 0 stream ?w0") auto
  from consume_log[OF c] obtain evs where e: "log wc = log ?w0 @ evs" "write_first [] evs"
    by blast
  have s: "write_first [] (ConsumerStarted # evs)"
    "write_first [] (ConsumerStarted # evs @ [ConsumerStopped])"
    using e(2) by (simp_all add: write_first_append)
  have "log w1 = log wc \<or> log w1 = log wc @ [ConsumerStopped]"
    using assms None c by (auto simp: kafka_consumer_task_def split: option.splits)
  then show ?thesis
  proof
    assume "log w1 = log wc"
    then have "log w1 = log w @ (ConsumerStarted # evs)" using e by simp
    with s show ?thesis by blast
  next
    assume "log w1 = log wc @ [ConsumerStopped]"
    then have "log w1 = log w @ (ConsumerStarted # evs @ [ConsumerStopped])" using e by simp
    with s show ?thesis by blast
  qed
qed

text \<open>Witness for C3: two valid messages, nothing fails, two observers.\<close>

theorem write_precedes_broadcast_witness:
  "kafka_consumer_task quiet [Inr event_S1, Inr event_S2] ready =
     (None,
      \<lparr>db = Some pool_1_5,
       kafka_task = Some Scheduled,
       manager = \<lparr>active = [1, 2]\<rparr>,
       activity = [row_S1, row_S2],
       log = [PoolCreated 1 5, TaskCreated, ConsumerStarted,
              Inserted 0 row_S1,
              Registry 0 (Sent 1 alert_S1),
              Registry 0 (Sent 2 alert_S1),
              Inserted 1 row_S2,
              Registry 1 (Sent 1 alert_S2),
              Registry 1 (Sent 2 alert_S2)]\<rparr>)
   \<and> write_first []
       [ConsumerStarted,
        Inserted 0 row_S1, Registry 0 (Sent (1::nat) alert_S1), Registry 0 (Sent 2 alert_S1),
        Inserted 1 row_S2, Registry 1 (Sent 1 alert_S2), Registry 1 (Sent 2 alert_S2)]"
proof -
  have h: "kafka_consumer_task quiet [Inr event_S1, Inr event_S2] ready =
     (None,
      \<lparr>db = Some pool_1_5,
       kafka_task = Some Scheduled,
       manager = \<lparr>active = [1, 2]\<rparr>,
       activity = [row_S1, row_S2],
       log = [PoolCreated 1 5, TaskCreated, ConsumerStarted,
              Inserted 0 row_S1,
              Registry 0 (Sent 1 alert_S1),
              Registry 0 (Sent 2 alert_S1),
              Inserted 1 row_S2,
              Registry 1 (Sent 1 alert_S2),
              Registry 1 (Sent 2 alert_S2)]\<rparr>)"
    by (simp add: model_defs)
  show ?thesis
    using h write_precedes_broadcast[OF h] by (auto simp: ready_eq)
qed

subsection \<open>The broadcast payload\<close>

lemma map_of_dict_set: "map_of (dict_set k v d) = (map_of d)(k \<mapsto> v)"
  by (induction d) (auto simp: fun_eq_iff)

lemma map_of_fold_dict_set:
  "distinct (map fst d) \<Longrightarrow>
   map_of (fold (\<lambda>(k, v). dict_set k v) d base) k =
     (case map_of d k of Some v \<Rightarrow> Some v | None \<Rightarrow> map_of base k)"
proof (induction d arbitrary: base)
  case Nil
  then show ?case by simp
next
  case (Cons kv d)
  obtain k' v' where kv: "kv = (k', v')" by (cases kv)
  from Cons.prems kv have d: "distinct (map fst d)" and n: "map_of d k' = None"
    by (auto simp: map_of_eq_None_iff)
  show ?case
    using Cons.IH[OF d, of "dict_set k' v' base"] n
    by (simp add: kv map_of_dict_set split: option.splits)
qed

lemma dict_get_alert_dict:
  "distinct (map fst d) \<Longrightarrow>
   dict_get (alert_dict d) k =
     (case map_of d k of
        Some v \<Rightarrow> v
      | None \<Rightarrow> if k = ''type'' then JString ''ALERT'' else JNull)"
  by (simp add: dict_get_def alert_dict_def map_of_fold_dict_set split: option.splits)

lemma sent_messages_append:
  "sent_messages (es @ fs) = sent_messages es @ sent_messages fs"
  by (induction es rule: sent_messages.induct) simp_all

lemma sent_messages_removals: "sent_messages (map (Registry n \<circ> Unregistered) cs) = []"
  by (induction cs) simp_all

lemma send_pass_messages:
  "set (sent_messages (map (Registry n) (snd (send_pass send_text m cs to_remove tr))))
     \<subseteq> set (sent_messages (map (Registry n) tr)) \<union> {m}"
proof (induction cs arbitrary: to_remove tr)
  case Nil
  then show ?case by auto
next
  case (Cons c cs)
  show ?case
  proof (cases "send_text c m")
    case None
    with Cons.IH[of to_remove "tr @ [Sent c m]"] show ?thesis
      by (auto simp: sent_messages_append)
  next
    case (Some e)
    with Cons.IH[of "to_remove @ [c]" "tr @ [SendRaised c m e]"] show ?thesis
      by (auto simp: sent_messages_append)
  qed
qed

lemma broadcast_messages:
  "set (sent_messages (map (Registry n) (snd (snd (broadcast send_text m self))))) \<subseteq> {m}"
proof (cases "send_pass send_text m (active self) [] []")
  case (Pair r tr)
  have "set (sent_messages (map (Registry n) tr)) \<subseteq> {m}"
    using send_pass_messages[of n send_text m "active self" "[]" "[]"] Pair by simp
  with Pair show ?thesis
    by (cases r)
       (simp_all add: broadcast_def remove_pass_fold sent_messages_append sent_messages_removals)
qed

lemma persist_messages:
  "sent_messages (log (snd (persist env n data w))) = sent_messages (log w)"
  by (cases "release_reply env n")
     (auto simp: persist_def Let_def sent_messages_append
           split: sum.splits option.splits prod.splits)

lemma body_messages:
  "set (sent_messages (log (snd (body env n (JObject d) w))))
     \<subseteq> set (sent_messages (log w)) \<union> {JObject (alert_dict d)}"
proof (cases "persist env n (JObject d) w")
  case (Pair r0 w0)
  have p: "sent_messages (log w0) = sent_messages (log w)"
    using persist_messages[of env n "JObject d" w] Pair by simp
  show ?thesis
  proof (cases r0)
    case (Some e)
    with Pair p show ?thesis by (auto simp: body_def)
  next
    case None
    obtain rb m tr where
      b: "broadcast (send_reply env n) (JObject (alert_dict d)) (manager w0) = (rb, m, tr)"
      by (cases "broadcast (send_reply env n) (JObject (alert_dict d)) (manager w0)") auto
    have "set (sent_messages (map (Registry n) tr)) \<subseteq> {JObject (alert_dict d)}"
      using broadcast_messages[of n "send_reply env n" "JObject (alert_dict d)" "manager w0"] b
      by simp
    with None Pair p b show ?thesis
      by (auto simp: body_def sent_messages_append)
  qed
qed

text \<open>
  C9: for an event whose dict has distinct keys (every dict has), the payload handed to
  \<^verbatim>\<open>broadcast\<close> is the dict display \<^verbatim>\<open>{"type": "ALERT", **data}\<close>, in which the event's
  items are stored after the literal entry: an event with a \<^verbatim>\<open>type\<close> key is pushed with
  its own value for \<^verbatim>\<open>type\<close>, an event without one is pushed with \<^verbatim>\<open>ALERT\<close>, every other
  key carries the event's value, and the loop body hands no other message to the
  observers.
\<close>

theorem alert_type_from_event:
  assumes "distinct (map fst d)"
  shows "alert_payload (JObject d) = Inr (JObject (alert_dict d))
       \<and> (\<forall>v. map_of d ''type'' = Some v \<longrightarrow> dict_get (alert_dict d) ''type'' = v)
       \<and> (map_of d ''type'' = None \<longrightarrow> dict_get (alert_dict d) ''type'' = JString ''ALERT'')
       \<and> (\<forall>k. k \<noteq> ''type'' \<longrightarrow> dict_get (alert_dict d) k = dict_get d k)
       \<and> set (sent_messages (log (snd (body env n (JObject d) w))))
            \<subseteq> set (sent_messages (log w)) \<union> {JObject (alert_dict d)}"
  using assms body_messages[of env n d w]
  by (simp add: dict_get_alert_dict) (simp add: dict_get_def split: option.splits)

text \<open>Witness for C9: an event with \<^verbatim>\<open>"type": "INFO"\<close> reaches both observers as INFO.\<close>

theorem alert_type_from_event_witness:
  "distinct (map fst event_typed)
   \<and> map_of event_typed ''type'' = Some (JString ''INFO'')
   \<and> alert_dict event_typed = [(''type'', JString ''INFO''), (''student_id'', JString ''S3'')]
   \<and> dict_get (alert_dict event_typed) ''type'' = JString ''INFO''
   \<and> snd (body quiet 0 (JObject event_typed) ready) =
       ready\<lparr>activity := [\<lparr>student_id = JString ''S3'', status = JNull, confidence = JNull,
                              ts = None\<rparr>],
              log := [PoolCreated 1 5, TaskCreated,
                      Inserted 0 \<lparr>student_id = JString ''S3'', status = JNull,
                                   confidence = JNull, ts = None\<rparr>,
                      Registry 0 (Sent 1 (JObject [(''type'', JString ''INFO''),
                                                    (''student_id'', JString ''S3'')])),
                      Registry 0 (Sent 2 (JObject [(''type'', JString ''INFO''),
                                                    (''student_id'', JString ''S3'')]))]\<rparr>"
proof -
  have h: "distinct (map fst event_typed)" by (simp add: event_typed_def)
  show ?thesis
    using h alert_type_from_event[OF h, of quiet 0 ready]
    by (simp add: event_typed_def model_defs)
qed

subsection \<open>No validation of the fields\<close>





section \<open>Properties of the store\<close>

lemma ts_before_total: "ts_before a b \<or> ts_before b a"
  by (cases a; cases b) auto

lemma ts_before_trans: "ts_before a b \<Longrightarrow> ts_before b c \<Longrightarrow> ts_before a c"
  by (cases a; cases b; cases c) auto

lemma mset_insert_desc: "mset (insert_desc r xs) = add_mset r (mset xs)"
  by (induction xs) auto

lemma set_insert_desc: "set (insert_desc r xs) = insert r (set xs)"
  by (induction xs) auto

lemma sorted_insert_desc:
  "sorted_wrt (\<lambda>a b. ts_before (ts a) (ts b)) xs \<Longrightarrow>
   sorted_wrt (\<lambda>a b. ts_before (ts a) (ts b)) (insert_desc r xs)"
proof (induction xs)
  case Nil
  then show ?case by simp
next
  case (Cons q qs)
  show ?case
  proof (cases "ts_before (ts r) (ts q)")
    case True
    with Cons.prems show ?thesis by (auto intro: ts_before_trans)
  next
    case False
    then have "ts_before (ts q) (ts r)" using ts_before_total by blast
    with False Cons show ?thesis by (auto simp: set_insert_desc)
  qed
qed

lemma mset_order_by: "mset (order_by_ts_desc table) = mset table"
  by (induction table) (simp_all add: order_by_ts_desc_def mset_insert_desc)

lemma sorted_order_by:
  "sorted_wrt (\<lambda>a b. ts_before (ts a) (ts b)) (order_by_ts_desc table)"
  by (induction table) (simp_all add: order_by_ts_desc_def sorted_insert_desc)

lemma length_order_by: "length (order_by_ts_desc table) = length table"
  using mset_order_by[of table] by (metis size_mset)

lemma select_recent_props:
  "length (select_recent table) = min 20 (length table)"
  "sorted_wrt (\<lambda>a b. ts_before (ts a) (ts b)) (select_recent table)"
  "mset (select_recent table) \<subseteq># mset table"
  "\<forall>q\<in>set (select_recent table). \<forall>r\<in>#(mset table - mset (select_recent table)).
      ts_before (ts q) (ts r)"
proof -
  let ?xs = "order_by_ts_desc table"
  let ?B = "\<lambda>a b. ts_before (ts a) (ts b)"
  show "length (select_recent table) = min 20 (length table)"
    by (simp add: select_recent_def length_order_by min.commute)
  have s: "sorted_wrt ?B (take 20 ?xs @ drop 20 ?xs)"
    using sorted_order_by[of table] by simp
  then show "sorted_wrt ?B (select_recent table)"
    unfolding select_recent_def sorted_wrt_append by blast
  have m: "mset table = mset (take 20 ?xs) + mset (drop 20 ?xs)"
    by (metis mset_order_by append_take_drop_id mset_append)
  show "mset (select_recent table) \<subseteq># mset table"
    unfolding select_recent_def by (subst m) simp
  have d: "mset table - mset (select_recent table) = mset (drop 20 ?xs)"
    unfolding select_recent_def by (subst m) simp
  show "\<forall>q\<in>set (select_recent table). \<forall>r\<in>#(mset table - mset (select_recent table)).
      ts_before (ts q) (ts r)"
    unfolding d using s unfolding sorted_wrt_append select_recent_def by auto
qed

text \<open>
  C6: when the pool gives a connection and the query runs, \<^verbatim>\<open>recent\<close> returns the rows of
  the query: at most 20 (all of them when the table holds fewer), in descending order of
  timestamp (as PostgreSQL orders them, NULL first), taken from the table, and no row
  left out is more recent than a row returned. An empty table gives the empty list, not
  an error; a table of 25 rows gives 20 rows and leaves out 5.
\<close>

theorem recent_returns_latest:
  assumes "acquire (db w) areply = Inr conn"
  shows "recent areply None w = Inr (select_recent (activity w))
       \<and> length (select_recent (activity w)) = min 20 (length (activity w))
       \<and> sorted_wrt (\<lambda>a b. ts_before (ts a) (ts b)) (select_recent (activity w))
       \<and> mset (select_recent (activity w)) \<subseteq># mset (activity w)
       \<and> (\<forall>q\<in>set (select_recent (activity w)).
            \<forall>r\<in>#(mset (activity w) - mset (select_recent (activity w))).
               ts_before (ts q) (ts r))
       \<and> (activity w = [] \<longrightarrow> recent areply None w = Inr [])
       \<and> (length (activity w) = 25 \<longrightarrow>
            length (select_recent (activity w)) = 20
          \<and> size (mset (activity w) - mset (select_recent (activity w))) = 5)"
proof -
  have r: "recent areply None w = Inr (select_recent (activity w))"
    using assms by (simp add: recent_def)
  have e: "select_recent [] = []" by (simp add: select_recent_def order_by_ts_desc_def)
  have f: "size (mset (activity w) - mset (select_recent (activity w))) = 5"
    if "length (activity w) = 25"
    using that select_recent_props(1,3)[of "activity w"]
    by (simp add: size_Diff_submset)
  show ?thesis
    using r e f select_recent_props[of "activity w"] by auto
qed

lemma after_25_activity: "activity after_25 = map tick_row [1700000001..1700000025]"
  by (simp add: after_25_def tick_def tick_row_def model_defs)

text \<open>Witness for C6: after the consumer stored 25 events, one per second, \<^verbatim>\<open>recent\<close>
  returns the last 20 of them, latest first.\<close>

theorem recent_returns_latest_witness:
  "acquire (db after_25) None = Inr pool_1_5
   \<and> length (activity after_25) = 25
   \<and> recent None None after_25 =
       Inr (map tick_row [1700000025, 1700000024, 1700000023, 1700000022, 1700000021, 1700000020,
            1700000019, 1700000018, 1700000017, 1700000016, 1700000015, 1700000014,
            1700000013, 1700000012, 1700000011, 1700000010, 1700000009, 1700000008,
            1700000007, 1700000006])"
proof -
  have h: "acquire (db after_25) None = Inr pool_1_5"
    by (simp add: after_25_def tick_def model_defs)
  have s: "select_recent (map tick_row [1700000001..1700000025]) =
      map tick_row [1700000025, 1700000024, 1700000023, 1700000022, 1700000021, 1700000020,
            1700000019, 1700000018, 1700000017, 1700000016, 1700000015, 1700000014,
            1700000013, 1700000012, 1700000011, 1700000010, 1700000009, 1700000008,
            1700000007, 1700000006]"
    by (simp add: select_recent_def order_by_ts_desc_def tick_row_def)
  have r: "recent None None after_25 = Inr (select_recent (activity after_25))"
    using recent_returns_latest[OF h] by (rule conjunct1)
  have l: "length (activity after_25) = 25"
    unfolding after_25_activity by simp
  show ?thesis
    using h l r unfolding after_25_activity s by (intro conjI)
qed


section \<open>Properties of startup and shutdown\<close>

text \<open>
  C8: \<^verbatim>\<open>startup\<close> creates the pool with \<open>min_size = 1\<close> and \<open>max_size = 5\<close> and only then
  creates the consumer task (when the pool cannot be created the exception leaves
  \<^verbatim>\<open>startup\<close> and no task is created). The read path and the write path both take
  their connection from this one pool in \<^verbatim>\<open>app.state.db\<close>: what refuses an acquisition
  refuses both, and once \<^verbatim>\<open>shutdown\<close> has closed the pool both fail with InterfaceError.
\<close>

theorem startup_pool_before_task:
  "startup None w =
     (None, w\<lparr>db := Some \<lparr>min_size = 1, max_size = 5, closed = False\<rparr>,
              kafka_task := Some Scheduled,
              log := log w @ [PoolCreated 1 5, TaskCreated]\<rparr>)
   \<and> startup (Some e) w = (Some e, w)
   \<and> recent None None (snd (startup None w)) = Inr (select_recent (activity w))
   \<and> (\<forall>areply freply x. acquire (db w) areply = Inl x \<longrightarrow> recent areply freply w = Inl x)
   \<and> (\<forall>env n data x. acquire (db w) (acquire_reply env n) = Inl x \<longrightarrow>
         persist env n data w = (Some x, w))
   \<and> (\<forall>areply freply env n data.
         recent areply freply (snd (shutdown None (snd (startup None w)))) = Inl InterfaceError
       \<and> fst (persist env n data (snd (shutdown None (snd (startup None w)))))
           = Some InterfaceError)"
  by (auto simp: startup_def shutdown_def create_pool_def Let_def recent_def persist_def
           acquire_def split: option.splits)

text \<open>Witness for C8: before \<^verbatim>\<open>startup\<close> neither path has a pool; after it both work.\<close>

theorem startup_pool_before_task_witness:
  "acquire (db fresh) None = Inl AttributeError
   \<and> recent None None fresh = Inl AttributeError
   \<and> persist quiet 0 event_S1 fresh = (Some AttributeError, fresh)
   \<and> startup None fresh = (None, ready)
   \<and> db ready = Some \<lparr>min_size = 1, max_size = 5, closed = False\<rparr>
   \<and> log ready = [PoolCreated 1 5, TaskCreated]
   \<and> recent None None ready = Inr []
   \<and> fst (persist quiet 0 event_S1 ready) = None"
proof -
  have h: "acquire (db fresh) None = Inl AttributeError" by (simp add: fresh_def acquire_def)
  have q: "acquire (db fresh) (acquire_reply quiet 0) = Inl AttributeError"
    by (simp add: fresh_def acquire_def)
  show ?thesis
    using h q startup_pool_before_task[of fresh]
    by (simp add: model_defs select_recent_def order_by_ts_desc_def)
qed






end
